theory Spec2Isabelle
  imports Complex_Main "HOL-Library.Multiset"
begin

section \<open>The cluster manager of src/server/clusterManager.py\<close>

text \<open>
  The class \<^verbatim>\<open>clusterManager\<close> keeps a list \<^verbatim>\<open>self.nodes\<close> of Python dictionaries.
  The dictionaries are objects: \<^verbatim>\<open>add_node\<close> writes three keys into the dictionary it is
  given and appends that very object, and the health check writes \<^verbatim>\<open>node['status']\<close> in
  place. The model therefore has an explicit store: a reference is a number, the heap sends
  a reference to the dictionary it holds, and the registry is a list of references.

  Dictionary values are strings or numbers (\<^verbatim>\<open>time.time()\<close> is a float, the timeout the
  integer 30; both are read as real numbers, rounding is not modelled). The clock reading
  \<^verbatim>\<open>time.time()\<close> and the value of \<^verbatim>\<open>str(uuid.uuid4())\<close> are inputs of the operations
  that take them. Logging is left out, except where the logged f-string reads a key of a
  node and can therefore raise.
\<close>

subsection \<open>Data\<close>

datatype val = VStr string | VNum real

type_synonym dict = "string \<rightharpoonup> val"

type_synonym ref = nat

datatype error =
    KeyError string
  | TypeError
  | IndexError
  | ValueError
  | InsufficientNodes int

text \<open>
  \<^verbatim>\<open>KeyError k\<close>: \<^verbatim>\<open>node[k]\<close> on a dictionary without the key \<^verbatim>\<open>k\<close>.
  \<^verbatim>\<open>TypeError\<close>: \<^verbatim>\<open>current_time - node['last_heartbeat']\<close> on a value that is not a number.
  \<^verbatim>\<open>ValueError\<close>: \<^verbatim>\<open>ThreadPoolExecutor(max_workers=n)\<close> with \<^verbatim>\<open>n <= 0\<close>.
  \<^verbatim>\<open>InsufficientNodes m\<close>: the \<^verbatim>\<open>Exception\<close> that \<^verbatim>\<open>get_healthy_nodes\<close> raises when fewer
  than \<^verbatim>\<open>m\<close> nodes qualify.
\<close>

record cluster =
  heap :: "ref \<Rightarrow> dict"
  nodes :: "ref list"
  node_timeout :: real
  health_check_interval :: real

subsection \<open>Construction, admission, removal\<close>

text \<open>
  \<^verbatim>\<open>self.nodes = initial_nodes or []\<close>: \<^verbatim>\<open>None\<close> and the empty list give the empty
  registry, any other list is taken as it is. No dictionary is written.
\<close>

definition init :: "(ref \<Rightarrow> dict) \<Rightarrow> ref list option \<Rightarrow> cluster" where
  "init h initial_nodes =
     \<lparr> heap = h,
       nodes = (case initial_nodes of None \<Rightarrow> [] | Some ns \<Rightarrow> ns),
       node_timeout = 30,
       health_check_interval = 60 \<rparr>"

text \<open>
  \<^verbatim>\<open>add_node(node_info)\<close>; \<open>node_id\<close> is the value of \<^verbatim>\<open>str(uuid.uuid4())\<close> and \<open>now\<close>
  the value of \<^verbatim>\<open>time.time()\<close> in this call.
\<close>

definition add_node :: "cluster \<Rightarrow> ref \<Rightarrow> string \<Rightarrow> real \<Rightarrow> string \<times> cluster" where
  "add_node c node_info node_id now =
     (node_id,
      c\<lparr> heap := (heap c)(node_info :=
             (heap c node_info)(''id'' \<mapsto> VStr node_id,
                                ''last_heartbeat'' \<mapsto> VNum now,
                                ''status'' \<mapsto> VStr ''active'')),
         nodes := nodes c @ [node_info] \<rparr>)"

text \<open>
  The comprehension of \<^verbatim>\<open>remove_node\<close>: it reads \<^verbatim>\<open>node['id']\<close> of every node in order, so
  the first node without that key raises and \<^verbatim>\<open>self.nodes\<close> is not assigned.
\<close>

fun remove_filter :: "(ref \<Rightarrow> dict) \<Rightarrow> val \<Rightarrow> ref list \<Rightarrow> error + ref list" where
  "remove_filter h node_id [] = Inr []"
| "remove_filter h node_id (n # ns) =
     (case h n ''id'' of
        None \<Rightarrow> Inl (KeyError ''id'')
      | Some v \<Rightarrow>
          (case remove_filter h node_id ns of
             Inl e \<Rightarrow> Inl e
           | Inr ks \<Rightarrow> Inr (if v \<noteq> node_id then n # ks else ks)))"

definition remove_node :: "cluster \<Rightarrow> val \<Rightarrow> error + cluster" where
  "remove_node c node_id =
     (case remove_filter (heap c) node_id (nodes c) of
        Inl e \<Rightarrow> Inl e
      | Inr ks \<Rightarrow> Inr (c\<lparr> nodes := ks \<rparr>))"

subsection \<open>The liveness filter\<close>

text \<open>
  The condition of the comprehension of \<^verbatim>\<open>get_healthy_nodes\<close>. Python's \<^verbatim>\<open>and\<close> evaluates
  its right operand only when the left one holds, so \<^verbatim>\<open>last_heartbeat\<close> is read only of a
  node whose status is \<^verbatim>\<open>'active'\<close>.
\<close>

definition is_healthy :: "cluster \<Rightarrow> real \<Rightarrow> ref \<Rightarrow> error + bool" where
  "is_healthy c current_time n =
     (case heap c n ''status'' of
        None \<Rightarrow> Inl (KeyError ''status'')
      | Some s \<Rightarrow>
          if s = VStr ''active'' then
            (case heap c n ''last_heartbeat'' of
               None \<Rightarrow> Inl (KeyError ''last_heartbeat'')
             | Some (VStr _) \<Rightarrow> Inl TypeError
             | Some (VNum hb) \<Rightarrow> Inr (current_time - hb < node_timeout c))
          else Inr False)"

fun healthy_filter :: "cluster \<Rightarrow> real \<Rightarrow> ref list \<Rightarrow> error + ref list" where
  "healthy_filter c current_time [] = Inr []"
| "healthy_filter c current_time (n # ns) =
     (case is_healthy c current_time n of
        Inl e \<Rightarrow> Inl e
      | Inr b \<Rightarrow>
          (case healthy_filter c current_time ns of
             Inl e \<Rightarrow> Inl e
           | Inr hs \<Rightarrow> Inr (if b then n # hs else hs)))"

definition get_healthy_nodes :: "cluster \<Rightarrow> real \<Rightarrow> int \<Rightarrow> error + ref list" where
  "get_healthy_nodes c current_time min_nodes =
     (case healthy_filter c current_time (nodes c) of
        Inl e \<Rightarrow> Inl e
      | Inr healthy_nodes \<Rightarrow>
          if int (length healthy_nodes) < min_nodes then Inl (InsufficientNodes min_nodes)
          else Inr healthy_nodes)"

subsection \<open>Selection\<close>

text \<open>
  \<^verbatim>\<open>select_node_for_operation\<close>: the healthy nodes with the default \<^verbatim>\<open>min_nodes = 1\<close>, the
  first of them, then \<^verbatim>\<open>self.nodes.append(self.nodes.pop(0))\<close>, then the log line that reads
  \<^verbatim>\<open>selected_node['id']\<close>. The rotation has happened when the log line raises, so the
  cluster is returned beside the result. The argument \<^verbatim>\<open>operation_type\<close> is only logged.
\<close>

definition select_node_for_operation :: "cluster \<Rightarrow> real \<Rightarrow> (error + ref) \<times> cluster" where
  "select_node_for_operation c current_time =
     (case get_healthy_nodes c current_time 1 of
        Inl e \<Rightarrow> (Inl e, c)
      | Inr healthy_nodes \<Rightarrow>
          (case healthy_nodes of
             [] \<Rightarrow> (Inl IndexError, c)
           | selected_node # _ \<Rightarrow>
               (case nodes c of
                  [] \<Rightarrow> (Inl IndexError, c)
                | first # others \<Rightarrow>
                    let c' = c\<lparr> nodes := others @ [first] \<rparr> in
                    (case heap c selected_node ''id'' of
                       None \<Rightarrow> (Inl (KeyError ''id''), c')
                     | Some _ \<Rightarrow> (Inr selected_node, c')))))"

subsection \<open>The health check\<close>

text \<open>
  One pass of the \<^verbatim>\<open>for\<close> loop of \<^verbatim>\<open>_health_check\<close> over \<^verbatim>\<open>self.nodes\<close>. A node whose
  heartbeat is older than the timeout gets \<^verbatim>\<open>status = 'inactive'\<close>, and the warning logged
  after that reads \<^verbatim>\<open>node['id']\<close>. An exception ends the pass; what was written before it
  stays written, and the \<^verbatim>\<open>except\<close> clause swallows it.
\<close>

fun sweep_nodes :: "(ref \<Rightarrow> dict) \<Rightarrow> real \<Rightarrow> real \<Rightarrow> ref list \<Rightarrow> error option \<times> (ref \<Rightarrow> dict)" where
  "sweep_nodes h current_time timeout [] = (None, h)"
| "sweep_nodes h current_time timeout (n # ns) =
     (case h n ''last_heartbeat'' of
        None \<Rightarrow> (Some (KeyError ''last_heartbeat''), h)
      | Some (VStr _) \<Rightarrow> (Some TypeError, h)
      | Some (VNum hb) \<Rightarrow>
          if current_time - hb > timeout then
            (let h' = h(n := (h n)(''status'' \<mapsto> VStr ''inactive'')) in
             case h' n ''id'' of
               None \<Rightarrow> (Some (KeyError ''id''), h')
             | Some _ \<Rightarrow> sweep_nodes h' current_time timeout ns)
          else sweep_nodes h current_time timeout ns)"

definition health_sweep :: "cluster \<Rightarrow> real \<Rightarrow> error option \<times> cluster" where
  "health_sweep c current_time =
     (case sweep_nodes (heap c) current_time (node_timeout c) (nodes c) of
        (e, h') \<Rightarrow> (e, c\<lparr> heap := h' \<rparr>))"

text \<open>
  \<^verbatim>\<open>_health_check\<close> is \<^verbatim>\<open>while True\<close>: it never returns. Its first \<open>k\<close> iterations, with
  the clock readings of those iterations given as a list, are the following function;
  the error of a pass is logged and dropped.
\<close>

fun health_check_passes :: "cluster \<Rightarrow> real list \<Rightarrow> cluster" where
  "health_check_passes c [] = c"
| "health_check_passes c (t # ts) = health_check_passes (snd (health_sweep c t)) ts"

subsection \<open>Distributed execution\<close>

text \<open>
  The operation is a callable \<^verbatim>\<open>operation(node, data)\<close>; it either returns a result or
  raises an \<^verbatim>\<open>Exception\<close> whose \<^verbatim>\<open>str\<close> is recorded. It is modelled as a function of the
  node's dictionary and the payload (\<open>Inl\<close> the message of the exception); an operation
  that writes to the node, does not return, or raises outside \<^verbatim>\<open>Exception\<close> is not
  modelled.
\<close>

type_synonym ('d, 'r) operation = "dict \<Rightarrow> 'd \<Rightarrow> string + 'r"

text \<open>
  One entry of the result list: \<^verbatim>\<open>{'node_id', 'result', 'status': 'success'}\<close> or
  \<^verbatim>\<open>{'node_id', 'error', 'status': 'failed'}\<close>.
\<close>

datatype 'r outcome = Success val 'r | Failed val string

fun status :: "'r outcome \<Rightarrow> string" where
  "status (Success _ _) = ''success''"
| "status (Failed _ _) = ''failed''"

fun node_id :: "'r outcome \<Rightarrow> val" where
  "node_id (Success i _) = i"
| "node_id (Failed i _) = i"

text \<open>
  The loop over \<^verbatim>\<open>as_completed(futures)\<close>, given the nodes in the order in which their
  futures complete. \<^verbatim>\<open>node['id']\<close> is read in the \<^verbatim>\<open>try\<close> body and again in the handler, so
  a node without the key makes the whole call raise.
\<close>

fun collect_results ::
  "(ref \<Rightarrow> dict) \<Rightarrow> ('d, 'r) operation \<Rightarrow> 'd \<Rightarrow> ref list \<Rightarrow> error + 'r outcome list" where
  "collect_results h operation data [] = Inr []"
| "collect_results h operation data (n # ns) =
     (case h n ''id'' of
        None \<Rightarrow> Inl (KeyError ''id'')
      | Some i \<Rightarrow>
          (case collect_results h operation data ns of
             Inl e \<Rightarrow> Inl e
           | Inr rs \<Rightarrow>
               Inr ((case operation (h n) data of
                       Inr result \<Rightarrow> Success i result
                     | Inl msg \<Rightarrow> Failed i msg) # rs)))"

text \<open>
  \<^verbatim>\<open>perform_distributed_operation\<close>. The futures are submitted for
  \<^verbatim>\<open>healthy_nodes[:max_concurrent_nodes]\<close> in order; \<^verbatim>\<open>as_completed\<close> yields them as they
  finish. \<open>finished i\<close> is the time at which the future submitted at position \<open>i\<close>
  finishes, so the completion order is the positions sorted by it. The executor is created
  after the healthy nodes are read and rejects \<^verbatim>\<open>max_workers <= 0\<close>.
\<close>

definition completion_order :: "(nat \<Rightarrow> nat) \<Rightarrow> nat \<Rightarrow> nat list" where
  "completion_order finished k = sort_key finished [0..<k]"

definition perform_distributed_operation ::
  "cluster \<Rightarrow> real \<Rightarrow> ('d, 'r) operation \<Rightarrow> 'd \<Rightarrow> int \<Rightarrow> (nat \<Rightarrow> nat) \<Rightarrow> error + 'r outcome list" where
  "perform_distributed_operation c current_time operation data max_concurrent_nodes finished =
     (case get_healthy_nodes c current_time 1 of
        Inl e \<Rightarrow> Inl e
      | Inr healthy_nodes \<Rightarrow>
          if max_concurrent_nodes \<le> 0 then Inl ValueError
          else
            (let submitted = take (nat max_concurrent_nodes) healthy_nodes in
             collect_results (heap c) operation data
               (map (\<lambda>i. submitted ! i) (completion_order finished (length submitted)))))"

section \<open>Notions of the specification\<close>

text \<open>
  A node as \<^verbatim>\<open>add_node\<close> leaves it: the keys \<^verbatim>\<open>id\<close> and \<^verbatim>\<open>status\<close> are present and
  \<^verbatim>\<open>last_heartbeat\<close> is a number.
\<close>

definition node_fields_ok :: "dict \<Rightarrow> bool" where
  "node_fields_ok d =
     (d ''id'' \<noteq> None \<and> d ''status'' \<noteq> None \<and>
      (case d ''last_heartbeat'' of Some (VNum _) \<Rightarrow> True | _ \<Rightarrow> False))"

text \<open>An active node with a fresh heartbeat: status Active and heartbeat age below the timeout.\<close>

definition fresh_active :: "cluster \<Rightarrow> real \<Rightarrow> ref \<Rightarrow> bool" where
  "fresh_active c now n =
     (heap c n ''status'' = Some (VStr ''active'') \<and>
      (case heap c n ''last_heartbeat'' of
         Some (VNum hb) \<Rightarrow> now - hb < node_timeout c
       | _ \<Rightarrow> False))"

text \<open>A node whose heartbeat age exceeds the timeout.\<close>

definition heartbeat_expired :: "(ref \<Rightarrow> dict) \<Rightarrow> real \<Rightarrow> real \<Rightarrow> ref \<Rightarrow> bool" where
  "heartbeat_expired h now timeout n =
     (case h n ''last_heartbeat'' of Some (VNum hb) \<Rightarrow> now - hb > timeout | _ \<Rightarrow> False)"

text \<open>The ids along the registry, in registry order (\<open>None\<close> for a node without the key).\<close>

definition registry_ids :: "cluster \<Rightarrow> val option list" where
  "registry_ids c = map (\<lambda>n. heap c n ''id'') (nodes c)"

text \<open>A sequence of \<^verbatim>\<open>add_node\<close> calls, each with its dictionary, its uuid and its clock reading.\<close>

fun add_nodes :: "cluster \<Rightarrow> (ref \<times> string \<times> real) list \<Rightarrow> cluster" where
  "add_nodes c [] = c"
| "add_nodes c ((node_info, uuid, now) # calls) =
     add_nodes (snd (add_node c node_info uuid now)) calls"

text \<open>
  Modelled from the spec: \<^verbatim>\<open>uuid.uuid4()\<close> is a call into Python's library, not code of
  the repository. The spec takes its values as unique identifiers (the registry "assigns a
  fresh unique id", a uniqueness "which the registry itself guarantees by generation"). One
  run of the program sees a sequence of such values, the call number \<open>k\<close> of \<^verbatim>\<open>uuid4\<close>
  returning \<open>draw src k\<close>; the sequences are those in which no value comes twice.
\<close>

typedef uuid_source = "{g :: nat \<Rightarrow> string. inj g}"
  morphisms draw Abs_uuid_source
proof
  show "(\<lambda>k. replicate k CHR ''u'') \<in> {g. inj g}"
    by (auto intro!: injI dest: arg_cong[where f = length])
qed

setup_lifting type_definition_uuid_source

lift_definition counting_source :: uuid_source is "\<lambda>k. replicate (Suc k) CHR ''u''"
  by (auto intro!: injI dest: arg_cong[where f = length])

text \<open>
  The calls that write to the manager, with the clock reading of each: the three public
  operations that write, and one pass of the health check. \<^verbatim>\<open>get_healthy_nodes\<close> and
  \<^verbatim>\<open>perform_distributed_operation\<close> write nothing.
\<close>

datatype call =
    AddNode ref real
  | RemoveNode val
  | SelectNode real
  | HealthSweep real

text \<open>
  A manager in use: the manager, the number of \<^verbatim>\<open>uuid4\<close> calls made so far, and the ids
  that \<^verbatim>\<open>add_node\<close> has returned so far, in the order of the calls.
\<close>

record session =
  manager :: cluster
  uuid_calls :: nat
  returned :: "string list"

definition start :: "(ref \<Rightarrow> dict) \<Rightarrow> ref list option \<Rightarrow> session" where
  "start h initial_nodes = \<lparr> manager = init h initial_nodes, uuid_calls = 0, returned = [] \<rparr>"

fun step :: "uuid_source \<Rightarrow> session \<Rightarrow> call \<Rightarrow> session" where
  "step src s (AddNode node_info now) =
     (case add_node (manager s) node_info (draw src (uuid_calls s)) now of
        (new_id, c') \<Rightarrow>
          s\<lparr> manager := c', uuid_calls := Suc (uuid_calls s), returned := returned s @ [new_id] \<rparr>)"
| "step src s (RemoveNode removed_id) =
     (case remove_node (manager s) removed_id of
        Inl e \<Rightarrow> s
      | Inr c' \<Rightarrow> s\<lparr> manager := c' \<rparr>)"
| "step src s (SelectNode now) =
     s\<lparr> manager := snd (select_node_for_operation (manager s) now) \<rparr>"
| "step src s (HealthSweep now) =
     s\<lparr> manager := snd (health_sweep (manager s) now) \<rparr>"

fun run :: "uuid_source \<Rightarrow> session \<Rightarrow> call list \<Rightarrow> session" where
  "run src s [] = s"
| "run src s (x # xs) = run src (step src s x) xs"

text \<open>
  The condition on a sequence of calls that no dictionary is passed to \<^verbatim>\<open>add_node\<close> while
  that object is registered.
\<close>

fun passes_new_object :: "session \<Rightarrow> call \<Rightarrow> bool" where
  "passes_new_object s (AddNode node_info now) = (node_info \<notin> set (nodes (manager s)))"
| "passes_new_object s _ = True"

fun fresh_objects :: "uuid_source \<Rightarrow> session \<Rightarrow> call list \<Rightarrow> bool" where
  "fresh_objects src s [] = True"
| "fresh_objects src s (x # xs) = (passes_new_object s x \<and> fresh_objects src (step src s x) xs)"

text \<open>
  What holds of the registry of a manager in use: no object is registered twice, every
  registered node carries an id that \<^verbatim>\<open>add_node\<close> has returned, and no two registered nodes
  carry the same id.
\<close>

definition ids_invariant :: "session \<Rightarrow> bool" where
  "ids_invariant s =
     (distinct (nodes (manager s)) \<and>
      (\<forall>n\<in>set (nodes (manager s)). \<exists>u\<in>set (returned s). heap (manager s) n ''id'' = Some (VStr u)) \<and>
      inj_on (\<lambda>n. heap (manager s) n ''id'') (set (nodes (manager s))))"

text \<open>The number of entries of a result list with a given status.\<close>

definition count_status :: "string \<Rightarrow> 'r outcome list \<Rightarrow> nat" where
  "count_status s rs = length (filter (\<lambda>r. status r = s) rs)"

text \<open>The number of nodes of a list on which the operation raises.\<close>

definition count_raising :: "(ref \<Rightarrow> dict) \<Rightarrow> ('d, 'r) operation \<Rightarrow> 'd \<Rightarrow> ref list \<Rightarrow> nat" where
  "count_raising h operation data ns = length (filter (\<lambda>n. isl (operation (h n) data)) ns)"

section \<open>Concrete registries\<close>

text \<open>
  The dictionaries the caller holds before registering them: reference \<open>r\<close> holds a host
  name and the port \<open>8000 + r\<close>, as in the example at the end of the source file.
\<close>

definition caller_heap :: "ref \<Rightarrow> dict" where
  "caller_heap r = [''host'' \<mapsto> VStr ''node.example.com'', ''port'' \<mapsto> VNum (8000 + real r)]"

text \<open>
  The heartbeat refresh that the source leaves to its environment: the holder of the
  dictionary writes \<^verbatim>\<open>node['last_heartbeat'] = t\<close>.
\<close>

definition refresh_heartbeat :: "cluster \<Rightarrow> ref \<Rightarrow> real \<Rightarrow> cluster" where
  "refresh_heartbeat c n t =
     c\<lparr> heap := (heap c)(n := (heap c n)(''last_heartbeat'' \<mapsto> VNum t)) \<rparr>"

text \<open>
  Nodes A, B, C (references 0, 1, 2) registered in that order at times 0, 1, 2; A and C
  refresh their heartbeat at time 40, B does not; a health sweep runs at time 60.
\<close>

definition registered_abc :: cluster where
  "registered_abc =
     add_nodes (init caller_heap None) [(0, ''A'', 0), (1, ''B'', 1), (2, ''C'', 2)]"

definition abc_refreshed :: cluster where
  "abc_refreshed = refresh_heartbeat (refresh_heartbeat registered_abc 0 40) 2 40"

definition abc_swept :: cluster where
  "abc_swept = snd (health_sweep abc_refreshed 60)"

definition abc_selected_once :: cluster where
  "abc_selected_once = snd (select_node_for_operation abc_swept 61)"

definition abc_selected_twice :: cluster where
  "abc_selected_twice = snd (select_node_for_operation abc_selected_once 61)"

text \<open>
  B (reference 1) registered at time 0 and A (reference 0) at time 40; a health sweep at
  time 60 demotes B, which stands first in the registry.
\<close>

definition ba_swept :: cluster where
  "ba_swept =
     snd (health_sweep (add_nodes (init caller_heap None) [(1, ''B'', 0), (0, ''A'', 40)]) 60)"

text \<open>The same with a third node C (reference 2) registered at time 41.\<close>

definition bac_swept :: cluster where
  "bac_swept =
     snd (health_sweep
            (add_nodes (init caller_heap None) [(1, ''B'', 0), (0, ''A'', 40), (2, ''C'', 41)]) 60)"

definition bac_selected_once :: cluster where
  "bac_selected_once = snd (select_node_for_operation bac_swept 61)"

text \<open>One dictionary (reference 0) passed to \<^verbatim>\<open>add_node\<close> twice.\<close>

definition added_twice :: cluster where
  "added_twice = add_nodes (init caller_heap None) [(0, ''A'', 0), (0, ''B'', 1)]"

text \<open>A manager constructed with the two dictionaries of references 0 and 1.\<close>

definition with_initial_nodes :: cluster where
  "with_initial_nodes = init caller_heap (Some [0, 1])"

text \<open>An operation that returns the node's port, and raises on port 8001.\<close>

definition probe_port :: "(unit, val) operation" where
  "probe_port d u =
     (case d ''port'' of
        None \<Rightarrow> Inl ''no port''
      | Some p \<Rightarrow> if p = VNum 8001 then Inl ''refused'' else Inr p)"

text \<open>Futures finishing in the reverse of the order of submission.\<close>

definition finish_reversed :: "nat \<Rightarrow> nat" where
  "finish_reversed i = 10 - i"

text \<open>
  B, A, C (references 1, 0, 2) registered at times 0, 40, 41 with the ids \<open>u\<close>, \<open>uu\<close>,
  \<open>uuu\<close>; a health sweep at time 60, a selection at time 61, and the removal of B.
\<close>

definition busy_session :: session where
  "busy_session =
     run counting_source (start caller_heap None)
       [AddNode 1 0, AddNode 0 40, AddNode 2 41, HealthSweep 60, SelectNode 61,
        RemoveNode (VStr ''u'')]"

text \<open>
  A (reference 0) registered at time 31 and B (reference 1) at time 40. At time 61 the
  heartbeat of A is exactly \<open>node_timeout = 30\<close> seconds old.
\<close>

definition at_boundary :: cluster where
  "at_boundary = add_nodes (init caller_heap None) [(0, ''A'', 31), (1, ''B'', 40)]"

lemmas model_defs =
  init_def add_node_def remove_node_def is_healthy_def get_healthy_nodes_def
  select_node_for_operation_def health_sweep_def refresh_heartbeat_def caller_heap_def

section \<open>The liveness filter and the health sweep\<close>

lemma is_healthy_fields_ok:
  "node_fields_ok (heap c n) \<Longrightarrow> is_healthy c now n = Inr (fresh_active c now n)"
  by (auto simp: node_fields_ok_def is_healthy_def fresh_active_def
           split: option.splits val.splits)

lemma healthy_filter_fields_ok:
  "\<forall>n\<in>set ns. node_fields_ok (heap c n) \<Longrightarrow>
   healthy_filter c now ns = Inr (filter (fresh_active c now) ns)"
  by (induction ns) (simp_all add: is_healthy_fields_ok)

lemma healthy_filter_member:
  "healthy_filter c now ns = Inr hs \<Longrightarrow> n \<in> set hs \<Longrightarrow> is_healthy c now n = Inr True"
  by (induction ns arbitrary: hs) (auto split: sum.splits if_splits)

text \<open>
  What a pass over the nodes does to the dictionary of any reference \<open>r\<close>, whether the
  pass ends normally or with an exception: nothing, or the status is set to
  \<^verbatim>\<open>'inactive'\<close> and \<open>r\<close> is a node of the list whose heartbeat has expired.
\<close>

lemma sweep_nodes_frame:
  "sweep_nodes h now t ns = (e, h') \<Longrightarrow>
   h' r = h r \<or>
   (r \<in> set ns \<and> heartbeat_expired h now t r \<and> h' r = (h r)(''status'' \<mapsto> VStr ''inactive''))"
proof (induction ns arbitrary: h)
  case Nil
  then show ?case by simp
next
  case (Cons n ns)
  show ?case
  proof (cases "h n ''last_heartbeat''")
    case None
    with Cons.prems show ?thesis by simp
  next
    case (Some v)
    show ?thesis
    proof (cases v)
      case (VStr s)
      with Some Cons.prems show ?thesis by simp
    next
      case (VNum hb)
      show ?thesis
      proof (cases "now - hb > t")
        case False
        with Some VNum Cons.prems have "sweep_nodes h now t ns = (e, h')" by simp
        from Cons.IH[OF this] show ?thesis by auto
      next
        case True
        let ?h1 = "h(n := (h n)(''status'' \<mapsto> VStr ''inactive''))"
        have expired: "heartbeat_expired h now t n"
          using Some VNum True by (simp add: heartbeat_expired_def)
        show ?thesis
        proof (cases "h n ''id''")
          case None
          with Some VNum True Cons.prems have "h' = ?h1" by (simp add: Let_def)
          with expired show ?thesis by auto
        next
          case has_id: (Some i)
          with Some VNum True Cons.prems
          have "sweep_nodes ?h1 now t ns = (e, h')" by (simp add: Let_def)
          from Cons.IH[OF this] expired show ?thesis
            by (auto simp: heartbeat_expired_def split: if_splits)
        qed
      qed
    qed
  qed
qed

lemma health_sweep_heap:
  "\<exists>e h'. sweep_nodes (heap c) now (node_timeout c) (nodes c) = (e, h') \<and>
          snd (health_sweep c now) = c\<lparr> heap := h' \<rparr>"
  by (cases "sweep_nodes (heap c) now (node_timeout c) (nodes c)") (simp add: health_sweep_def)

lemma health_sweep_frame:
  "heap (snd (health_sweep c now)) r = heap c r \<or>
   (r \<in> set (nodes c) \<and> heartbeat_expired (heap c) now (node_timeout c) r \<and>
    heap (snd (health_sweep c now)) r = (heap c r)(''status'' \<mapsto> VStr ''inactive''))"
proof -
  from health_sweep_heap obtain e h'
    where sw: "sweep_nodes (heap c) now (node_timeout c) (nodes c) = (e, h')"
      and c': "snd (health_sweep c now) = c\<lparr> heap := h' \<rparr>"
    by blast
  from sweep_nodes_frame[OF sw, of r] show ?thesis
    unfolding c' by simp
qed

lemma health_sweep_nodes: "nodes (snd (health_sweep c now)) = nodes c"
  using health_sweep_heap[of c now] by auto

text \<open>However many passes the loop of \<^verbatim>\<open>_health_check\<close> makes, the registry list stays.\<close>

lemma health_check_passes_nodes: "nodes (health_check_passes c ts) = nodes c"
  by (induction ts arbitrary: c) (simp_all add: health_sweep_nodes)

section \<open>Selection after a demotion\<close>

text \<open>
  Claim C1. Nodes A, B, C are registered in that order, only B misses its heartbeat, and a
  health sweep has run. The healthy nodes are then A and C, and the claim expects three
  selections in a row to give A, C, A. The code gives A, C, C: the second selection
  returns C but rotates B, the head of the registry, to the back, so C is still the first
  healthy node when the third selection is made.
\<close>

theorem scenario_selects_A_C_C:
  "get_healthy_nodes abc_swept 61 1 = Inr [0, 2] \<and>
   fst (select_node_for_operation abc_swept 61) = Inr 0 \<and>
   fst (select_node_for_operation abc_selected_once 61) = Inr 2 \<and>
   fst (select_node_for_operation abc_selected_twice 61) = Inr 2 \<and>
   nodes abc_selected_twice = [2, 0, 1]"
  by (simp add: abc_selected_twice_def abc_selected_once_def abc_swept_def abc_refreshed_def
        registered_abc_def model_defs)

text \<open>
  Claim C2. The node that a selection returns is to be moved to the back of the registry.
  With the demoted node B in front of the healthy node A, the selection returns A and
  leaves the registry as A, B: it is B that went to the back, and A now stands first.
\<close>

theorem select_rotates_unhealthy_head:
  "nodes ba_swept = [1, 0] \<and>
   get_healthy_nodes ba_swept 61 1 = Inr [0] \<and>
   select_node_for_operation ba_swept 61 = (Inr 0, ba_swept\<lparr> nodes := [0, 1] \<rparr>)"
  by (simp add: ba_swept_def model_defs)

text \<open>
  Claim C3. With N healthy nodes, N selections in a row are to return each of them once.
  With the registry B, A, C, where B is demoted and A and C are healthy, two selections
  return A and A again; the set of healthy nodes is the same before both, and C is not
  returned.
\<close>

theorem two_selects_repeat_A:
  "nodes bac_swept = [1, 0, 2] \<and>
   get_healthy_nodes bac_swept 61 1 = Inr [0, 2] \<and>
   fst (select_node_for_operation bac_swept 61) = Inr 0 \<and>
   get_healthy_nodes bac_selected_once 61 1 = Inr [0, 2] \<and>
   fst (select_node_for_operation bac_selected_once 61) = Inr 0"
  by (simp add: bac_selected_once_def bac_swept_def model_defs)

section \<open>The capacity check\<close>

text \<open>
  Claim C4. Over a registry of nodes that carry the fields of a registered node, with
  exactly \<open>m - 1\<close> active nodes of fresh heartbeat, \<^verbatim>\<open>get_healthy_nodes(m)\<close> raises its
  capacity exception; with exactly \<open>m\<close> of them it returns those \<open>m\<close> nodes, in registry
  order. This holds for every integer \<open>m\<close>, in particular for \<open>m \<ge> 1\<close>.
\<close>

theorem capacity_boundary:
  assumes "\<forall>n\<in>set (nodes c). node_fields_ok (heap c n)"
  shows "(int (length (filter (fresh_active c now) (nodes c))) = m - 1 \<longrightarrow>
            get_healthy_nodes c now m = Inl (InsufficientNodes m)) \<and>
         (int (length (filter (fresh_active c now) (nodes c))) = m \<longrightarrow>
            get_healthy_nodes c now m = Inr (filter (fresh_active c now) (nodes c)))"
  using healthy_filter_fields_ok[OF assms, of now]
  by (simp add: get_healthy_nodes_def)

theorem capacity_boundary_witness:
  "filter (fresh_active abc_swept 61) (nodes abc_swept) = [0, 2] \<and>
   get_healthy_nodes abc_swept 61 3 = Inl (InsufficientNodes 3) \<and>
   get_healthy_nodes abc_swept 61 2 = Inr [0, 2]"
proof -
  have ok: "\<forall>n\<in>set (nodes abc_swept). node_fields_ok (heap abc_swept n)"
    by (simp add: abc_swept_def abc_refreshed_def registered_abc_def model_defs node_fields_ok_def)
  have fresh: "filter (fresh_active abc_swept 61) (nodes abc_swept) = [0, 2]"
    by (simp add: abc_swept_def abc_refreshed_def registered_abc_def model_defs fresh_active_def)
  from capacity_boundary[OF ok, of 61 3] capacity_boundary[OF ok, of 61 2] fresh
  show ?thesis by simp
qed

section \<open>What a health sweep changes\<close>

text \<open>
  Claim C7. A health sweep leaves the registry list and the configuration as they are.
  The dictionary of any reference is either untouched, or it belongs to a registered node
  whose heartbeat age exceeds the timeout and differs from before only in
  \<^verbatim>\<open>status = 'inactive'\<close>. No node is removed, and a node that is active after the sweep
  was active before it. This holds also for a sweep that ends with an exception.
\<close>

theorem health_sweep_only_demotes:
  "nodes (snd (health_sweep c now)) = nodes c \<and>
   node_timeout (snd (health_sweep c now)) = node_timeout c \<and>
   health_check_interval (snd (health_sweep c now)) = health_check_interval c \<and>
   (\<forall>r. heap (snd (health_sweep c now)) r = heap c r \<or>
        (r \<in> set (nodes c) \<and> heartbeat_expired (heap c) now (node_timeout c) r \<and>
         heap (snd (health_sweep c now)) r = (heap c r)(''status'' \<mapsto> VStr ''inactive''))) \<and>
   (\<forall>r. heap (snd (health_sweep c now)) r ''status'' = Some (VStr ''active'') \<longrightarrow>
        heap c r ''status'' = Some (VStr ''active''))"
proof -
  have frame: "heap (snd (health_sweep c now)) r = heap c r \<or>
      (r \<in> set (nodes c) \<and> heartbeat_expired (heap c) now (node_timeout c) r \<and>
       heap (snd (health_sweep c now)) r = (heap c r)(''status'' \<mapsto> VStr ''inactive''))" for r
    by (rule health_sweep_frame)
  have keep: "heap (snd (health_sweep c now)) r ''status'' = Some (VStr ''active'') \<longrightarrow>
      heap c r ''status'' = Some (VStr ''active'')" for r
    using frame[of r] by auto
  have fields: "node_timeout (snd (health_sweep c now)) = node_timeout c \<and>
      health_check_interval (snd (health_sweep c now)) = health_check_interval c"
    using health_sweep_heap[of c now] by auto
  from frame keep fields health_sweep_nodes[of c now] show ?thesis by blast
qed

theorem health_sweep_only_demotes_witness:
  "heap (snd (health_sweep abc_refreshed 60)) 0 ''status'' = Some (VStr ''active'') \<and>
   heap abc_refreshed 0 ''status'' = Some (VStr ''active'') \<and>
   1 \<in> set (nodes abc_refreshed) \<and>
   heartbeat_expired (heap abc_refreshed) 60 (node_timeout abc_refreshed) 1 \<and>
   heap (snd (health_sweep abc_refreshed 60)) 1 =
     (heap abc_refreshed 1)(''status'' \<mapsto> VStr ''inactive'')"
proof -
  have a: "heap (snd (health_sweep abc_refreshed 60)) 0 ''status'' = Some (VStr ''active'')"
    by (simp add: abc_refreshed_def registered_abc_def model_defs)
  have b: "heap (snd (health_sweep abc_refreshed 60)) 1 ''status'' \<noteq> heap abc_refreshed 1 ''status''"
    by (simp add: abc_refreshed_def registered_abc_def model_defs)
  from health_sweep_only_demotes[of abc_refreshed 60] a b show ?thesis
    by metis
qed

text \<open>
  Claim C10. A node whose heartbeat age equals the timeout exactly is left out by
  \<^verbatim>\<open>get_healthy_nodes\<close>, whose test is \<^verbatim>\<open><\<close>, and is not demoted by a health sweep, whose
  test is \<^verbatim>\<open>>\<close>: its dictionary is the same after the sweep and its status is still
  \<^verbatim>\<open>'active'\<close>.
\<close>

theorem boundary_age_excluded_not_demoted:
  assumes "heap c r ''status'' = Some (VStr ''active'')"
      and "heap c r ''last_heartbeat'' = Some (VNum hb)"
      and "now - hb = node_timeout c"
  shows "(\<forall>m hs. get_healthy_nodes c now m = Inr hs \<longrightarrow> r \<notin> set hs) \<and>
         heap (snd (health_sweep c now)) r = heap c r \<and>
         heap (snd (health_sweep c now)) r ''status'' = Some (VStr ''active'')"
proof -
  have nh: "is_healthy c now r = Inr False"
    using assms by (simp add: is_healthy_def)
  have excluded: "\<forall>m hs. get_healthy_nodes c now m = Inr hs \<longrightarrow> r \<notin> set hs"
  proof (intro allI impI notI)
    fix m hs assume g: "get_healthy_nodes c now m = Inr hs" and "r \<in> set hs"
    from g have "healthy_filter c now (nodes c) = Inr hs"
      by (auto simp: get_healthy_nodes_def split: sum.splits if_splits)
    from healthy_filter_member[OF this \<open>r \<in> set hs\<close>] nh show False by simp
  qed
  have "\<not> heartbeat_expired (heap c) now (node_timeout c) r"
    using assms by (simp add: heartbeat_expired_def)
  with health_sweep_frame[of c now r] have same: "heap (snd (health_sweep c now)) r = heap c r"
    by simp
  from excluded same assms(1) show ?thesis by simp
qed

theorem boundary_age_excluded_not_demoted_witness:
  "0 \<in> set (nodes at_boundary) \<and>
   get_healthy_nodes at_boundary 61 1 = Inr [1] \<and>
   heap (snd (health_sweep at_boundary 61)) 0 ''status'' = Some (VStr ''active'')"
proof -
  have s: "heap at_boundary 0 ''status'' = Some (VStr ''active'')"
    by (simp add: at_boundary_def model_defs)
  have h: "heap at_boundary 0 ''last_heartbeat'' = Some (VNum 31)"
    by (simp add: at_boundary_def model_defs)
  have t: "61 - 31 = node_timeout at_boundary"
    by (simp add: at_boundary_def model_defs)
  have g: "get_healthy_nodes at_boundary 61 1 = Inr [1]"
    by (simp add: at_boundary_def model_defs)
  have n: "0 \<in> set (nodes at_boundary)"
    by (simp add: at_boundary_def model_defs)
  from boundary_age_excluded_not_demoted[OF s h t] g n show ?thesis by blast
qed

section \<open>A manager constructed with initial nodes\<close>

lemma add_nodes_nodes: "nodes (add_nodes c calls) = nodes c @ map fst calls"
  by (induction c calls rule: add_nodes.induct) (simp_all add: add_node_def)

lemma add_nodes_heap_other:
  "n \<notin> fst ` set calls \<Longrightarrow> heap (add_nodes c calls) n = heap c n"
  by (induction c calls rule: add_nodes.induct) (auto simp: add_node_def)

text \<open>
  Claim C9. A non-empty list of initial nodes becomes the registry as it is, and no
  dictionary is written. When these entries carry no \<^verbatim>\<open>id\<close>, \<^verbatim>\<open>status\<close> or
  \<^verbatim>\<open>last_heartbeat\<close>, every call of \<^verbatim>\<open>get_healthy_nodes\<close> ends in the \<^verbatim>\<open>KeyError\<close> for
  \<^verbatim>\<open>status\<close> and every health sweep in the \<^verbatim>\<open>KeyError\<close> for \<^verbatim>\<open>last_heartbeat\<close>, the sweep
  changing nothing. This stays so after any sequence of \<^verbatim>\<open>add_node\<close> calls for other
  dictionaries: the initial entries keep their place at the front of the registry.
\<close>

theorem initial_nodes_stored_as_given:
  assumes "initial_nodes \<noteq> []"
      and "\<forall>n\<in>set initial_nodes.
             h n ''id'' = None \<and> h n ''status'' = None \<and> h n ''last_heartbeat'' = None"
      and "\<forall>call\<in>set calls. fst call \<notin> set initial_nodes"
  shows "nodes (init h (Some initial_nodes)) = initial_nodes \<and>
         heap (init h (Some initial_nodes)) = h \<and>
         get_healthy_nodes (add_nodes (init h (Some initial_nodes)) calls) now m =
           Inl (KeyError ''status'') \<and>
         health_sweep (add_nodes (init h (Some initial_nodes)) calls) now =
           (Some (KeyError ''last_heartbeat''), add_nodes (init h (Some initial_nodes)) calls)"
proof -
  let ?c = "add_nodes (init h (Some initial_nodes)) calls"
  from assms(1) obtain n ns where ini: "initial_nodes = n # ns" by (cases initial_nodes) auto
  have st: "nodes (init h (Some initial_nodes)) = initial_nodes"
    and hp: "heap (init h (Some initial_nodes)) = h"
    by (simp_all add: init_def)
  have nodes_c: "nodes ?c = n # (ns @ map fst calls)"
    by (simp add: add_nodes_nodes init_def ini)
  have "n \<notin> fst ` set calls" using assms(3) ini by auto
  then have "heap ?c n = h n" by (simp add: add_nodes_heap_other hp)
  with assms(2) ini have no_status: "heap ?c n ''status'' = None"
    and no_hb: "heap ?c n ''last_heartbeat'' = None" by simp_all
  have g: "get_healthy_nodes ?c now m = Inl (KeyError ''status'')"
    by (simp add: get_healthy_nodes_def nodes_c is_healthy_def no_status)
  have s: "health_sweep ?c now = (Some (KeyError ''last_heartbeat''), ?c)"
    by (simp add: health_sweep_def nodes_c no_hb)
  from st hp g s show ?thesis by simp
qed

theorem initial_nodes_stored_as_given_witness:
  "nodes with_initial_nodes = [0, 1] \<and>
   heap with_initial_nodes = caller_heap \<and>
   get_healthy_nodes (add_nodes with_initial_nodes [(2, ''C'', 5)]) 6 1 = Inl (KeyError ''status'') \<and>
   health_sweep (add_nodes with_initial_nodes [(2, ''C'', 5)]) 60 =
     (Some (KeyError ''last_heartbeat''), add_nodes with_initial_nodes [(2, ''C'', 5)])"
proof -
  have a: "[0, 1] \<noteq> ([] :: ref list)" by simp
  have b: "\<forall>n\<in>set [0, 1]. caller_heap n ''id'' = None \<and> caller_heap n ''status'' = None \<and>
             caller_heap n ''last_heartbeat'' = None"
    by (simp add: caller_heap_def)
  have c: "\<forall>call\<in>set [(2, ''C'', 5)]. fst call \<notin> set [0, 1 :: ref]" by simp
  from initial_nodes_stored_as_given[OF a b, of "[(2, ''C'', 5)]", OF c, of 6 1]
       initial_nodes_stored_as_given[OF a b, of "[(2, ''C'', 5)]", OF c, of 60 1]
  show ?thesis unfolding with_initial_nodes_def by blast
qed

section \<open>Uniqueness of ids\<close>

lemma remove_filter_filter:
  "remove_filter h i ns = Inr ks \<Longrightarrow> ks = filter (\<lambda>n. h n ''id'' \<noteq> Some i) ns"
  by (induction ns arbitrary: ks) (auto split: option.splits sum.splits if_splits)

lemma remove_node_result:
  "remove_node c i = Inr c' \<Longrightarrow>
   heap c' = heap c \<and> nodes c' = filter (\<lambda>n. heap c n ''id'' \<noteq> Some i) (nodes c)"
  by (auto simp: remove_node_def split: sum.splits dest: remove_filter_filter)

lemma select_result:
  "heap (snd (select_node_for_operation c now)) = heap c \<and>
   (nodes (snd (select_node_for_operation c now)) = nodes c \<or>
    (\<exists>first others. nodes c = first # others \<and>
       nodes (snd (select_node_for_operation c now)) = others @ [first]))"
  by (auto simp: select_node_for_operation_def Let_def split: sum.splits list.splits option.splits)

lemma health_sweep_keeps_id:
  "heap (snd (health_sweep c now)) r ''id'' = heap c r ''id''"
  using health_sweep_frame[of c now r] by auto

lemma draw_inj: "draw src i = draw src j \<longleftrightarrow> i = j"
  using draw[of src] by (auto dest: injD)

lemma step_returned:
  "returned s = map (draw src) [0..<uuid_calls s] \<Longrightarrow>
   returned (step src s x) = map (draw src) [0..<uuid_calls (step src s x)]"
  by (cases x) (simp_all add: add_node_def split: sum.splits)

lemma run_returned:
  "returned s = map (draw src) [0..<uuid_calls s] \<Longrightarrow>
   returned (run src s xs) = map (draw src) [0..<uuid_calls (run src s xs)]"
  by (induction xs arbitrary: s) (simp_all add: step_returned)

lemma returned_distinct:
  "returned s = map (draw src) [0..<uuid_calls s] \<Longrightarrow> distinct (returned s)"
  by (simp add: distinct_map inj_on_def draw_inj)

lemma add_keeps_invariant:
  assumes inv: "ids_invariant s"
      and ret: "returned s = map (draw src) [0..<uuid_calls s]"
      and new: "node_info \<notin> set (nodes (manager s))"
  shows "ids_invariant (step src s (AddNode node_info now))"
proof -
  let ?c = "manager s"
  let ?u = "draw src (uuid_calls s)"
  let ?s' = "step src s (AddNode node_info now)"
  let ?c' = "manager ?s'"
  from inv have dist: "distinct (nodes ?c)"
    and known: "\<forall>n\<in>set (nodes ?c). \<exists>u\<in>set (returned s). heap ?c n ''id'' = Some (VStr u)"
    and inj0: "inj_on (\<lambda>n. heap ?c n ''id'') (set (nodes ?c))"
    unfolding ids_invariant_def by blast+
  have unused: "?u \<notin> set (returned s)" by (auto simp: ret draw_inj)
  have n': "nodes ?c' = nodes ?c @ [node_info]" by (simp add: add_node_def)
  have r': "returned ?s' = returned s @ [?u]" by (simp add: add_node_def)
  have new_id: "heap ?c' node_info ''id'' = Some (VStr ?u)" by (simp add: add_node_def)
  have old: "heap ?c' n = heap ?c n" if "n \<in> set (nodes ?c)" for n
    using that new by (auto simp: add_node_def)
  have other: "heap ?c' n ''id'' \<noteq> Some (VStr ?u)" if "n \<in> set (nodes ?c)" for n
    using known that old[OF that] unused by auto
  have inj: "inj_on (\<lambda>n. heap ?c' n ''id'') (set (nodes ?c'))"
  proof (rule inj_onI)
    fix x y
    assume x: "x \<in> set (nodes ?c')" and y: "y \<in> set (nodes ?c')"
      and eq: "heap ?c' x ''id'' = heap ?c' y ''id''"
    show "x = y"
    proof (cases "x = node_info")
      case True
      with eq new_id other[of y] y n' show ?thesis by auto
    next
      case xo: False
      show ?thesis
      proof (cases "y = node_info")
        case True
        with eq new_id other[of x] x n' show ?thesis by auto
      next
        case False
        with xo x y n' have "x \<in> set (nodes ?c)" "y \<in> set (nodes ?c)" by auto
        with eq old inj0 show ?thesis by (auto dest: inj_onD)
      qed
    qed
  qed
  have all: "\<forall>n\<in>set (nodes ?c'). \<exists>u\<in>set (returned ?s'). heap ?c' n ''id'' = Some (VStr u)"
  proof
    fix n assume "n \<in> set (nodes ?c')"
    with n' have "n = node_info \<or> n \<in> set (nodes ?c)" by auto
    then show "\<exists>u\<in>set (returned ?s'). heap ?c' n ''id'' = Some (VStr u)"
      using new_id known old r' by auto
  qed
  from dist new n' inj all show ?thesis
    unfolding ids_invariant_def by simp
qed

lemma step_keeps_invariant:
  assumes inv: "ids_invariant s"
      and ret: "returned s = map (draw src) [0..<uuid_calls s]"
      and obj: "passes_new_object s x"
  shows "ids_invariant (step src s x)"
proof (cases x)
  case (AddNode node_info now)
  with obj have "node_info \<notin> set (nodes (manager s))" by simp
  from add_keeps_invariant[OF inv ret this] AddNode show ?thesis by simp
next
  case (RemoveNode i)
  show ?thesis
  proof (cases "remove_node (manager s) i")
    case (Inl e)
    with RemoveNode inv show ?thesis by simp
  next
    case (Inr c')
    from remove_node_result[OF Inr]
    have h: "heap c' = heap (manager s)"
      and n: "nodes c' = filter (\<lambda>n. heap (manager s) n ''id'' \<noteq> Some i) (nodes (manager s))"
      by simp_all
    from inv show ?thesis
      unfolding RemoveNode ids_invariant_def
      by (auto simp: Inr h n intro: inj_on_subset)
  qed
next
  case (SelectNode now)
  from select_result[of "manager s" now]
  have h: "heap (snd (select_node_for_operation (manager s) now)) = heap (manager s)"
    and st: "set (nodes (snd (select_node_for_operation (manager s) now))) = set (nodes (manager s))"
    and d: "distinct (nodes (snd (select_node_for_operation (manager s) now))) = distinct (nodes (manager s))"
    by auto
  from inv show ?thesis
    unfolding SelectNode ids_invariant_def by (simp add: h st d)
next
  case (HealthSweep now)
  from inv show ?thesis
    unfolding HealthSweep ids_invariant_def
    by (simp add: health_sweep_nodes health_sweep_keeps_id)
qed

lemma run_keeps_invariant:
  "ids_invariant s \<Longrightarrow> returned s = map (draw src) [0..<uuid_calls s] \<Longrightarrow>
   fresh_objects src s xs \<Longrightarrow> ids_invariant (run src s xs)"
  by (induction xs arbitrary: s) (simp_all add: step_keeps_invariant step_returned)

lemma start_invariant:
  "initial_nodes = None \<or> initial_nodes = Some [] \<Longrightarrow> ids_invariant (start h initial_nodes)"
  by (auto simp: ids_invariant_def start_def init_def)

text \<open>
  Claim C6, as the code has it. After any sequence of admissions, removals, selections and
  health sweeps, on a manager constructed with or without initial nodes, the ids that
  \<^verbatim>\<open>add_node\<close> has returned are pairwise distinct. When the manager is constructed without
  initial nodes and no dictionary is passed to \<^verbatim>\<open>add_node\<close> while it is registered, the ids
  along the registry are pairwise distinct as well, and each of them is one of the
  returned ids. As this holds after every sequence of calls, it holds at all times.
\<close>

theorem returned_ids_and_registry_ids_unique:
  "distinct (returned (run src (start h initial_nodes) calls)) \<and>
   ((initial_nodes = None \<or> initial_nodes = Some []) \<and>
    fresh_objects src (start h initial_nodes) calls \<longrightarrow>
      distinct (registry_ids (manager (run src (start h initial_nodes) calls))) \<and>
      (\<forall>v\<in>set (registry_ids (manager (run src (start h initial_nodes) calls))).
         \<exists>u\<in>set (returned (run src (start h initial_nodes) calls)). v = Some (VStr u)))"
proof -
  let ?s = "run src (start h initial_nodes) calls"
  have at_start:
    "returned (start h initial_nodes) = map (draw src) [0..<uuid_calls (start h initial_nodes)]"
    by (simp add: start_def)
  then have "returned ?s = map (draw src) [0..<uuid_calls ?s]"
    by (rule run_returned)
  then have first: "distinct (returned ?s)"
    by (rule returned_distinct)
  have second: "distinct (registry_ids (manager ?s)) \<and>
      (\<forall>v\<in>set (registry_ids (manager ?s)). \<exists>u\<in>set (returned ?s). v = Some (VStr u))"
    if empty: "initial_nodes = None \<or> initial_nodes = Some []"
      and fresh: "fresh_objects src (start h initial_nodes) calls"
  proof -
    from empty have "ids_invariant (start h initial_nodes)"
      by (rule start_invariant)
    from run_keeps_invariant[OF this at_start fresh] show ?thesis
      by (auto simp: ids_invariant_def registry_ids_def distinct_map)
  qed
  from first second show ?thesis by blast
qed

lemma draw_counting: "draw counting_source k = replicate (Suc k) CHR ''u''"
  by (simp add: counting_source.rep_eq)

lemma busy_session_ids:
  "returned busy_session = [''u'', ''uu'', ''uuu''] \<and>
   nodes (manager busy_session) = [0, 2] \<and>
   registry_ids (manager busy_session) = [Some (VStr ''uu''), Some (VStr ''uuu'')]"
  by (simp add: busy_session_def start_def draw_counting registry_ids_def remove_node_def model_defs)

theorem returned_ids_and_registry_ids_unique_witness:
  "fresh_objects counting_source (start caller_heap None)
     [AddNode 1 0, AddNode 0 40, AddNode 2 41, HealthSweep 60, SelectNode 61,
      RemoveNode (VStr ''u'')] \<and>
   returned busy_session = [''u'', ''uu'', ''uuu''] \<and>
   distinct (returned busy_session) \<and>
   registry_ids (manager busy_session) = [Some (VStr ''uu''), Some (VStr ''uuu'')] \<and>
   distinct (registry_ids (manager busy_session))"
proof -
  have f: "fresh_objects counting_source (start caller_heap None)
     [AddNode 1 0, AddNode 0 40, AddNode 2 41, HealthSweep 60, SelectNode 61,
      RemoveNode (VStr ''u'')]"
    by (simp add: start_def draw_counting model_defs)
  from returned_ids_and_registry_ids_unique[of counting_source caller_heap None
         "[AddNode 1 0, AddNode 0 40, AddNode 2 41, HealthSweep 60, SelectNode 61,
           RemoveNode (VStr ''u'')]"] f busy_session_ids
  show ?thesis unfolding busy_session_def by blast
qed

text \<open>
  Claim C6, as stated, fails when one dictionary is passed to \<^verbatim>\<open>add_node\<close> twice. The two
  calls return the distinct ids A and B, but the second call overwrites the \<^verbatim>\<open>id\<close> of
  the object that is already registered and appends it again: the registry holds two
  entries, both with id B.
\<close>

theorem same_dictionary_added_twice:
  "fst (add_node (init caller_heap None) 0 ''A'' 0) = ''A'' \<and>
   fst (add_node (snd (add_node (init caller_heap None) 0 ''A'' 0)) 0 ''B'' 1) = ''B'' \<and>
   nodes added_twice = [0, 0] \<and>
   registry_ids added_twice = [Some (VStr ''B''), Some (VStr ''B'')] \<and>
   \<not> distinct (registry_ids added_twice)"
  by (simp add: added_twice_def registry_ids_def model_defs)

section \<open>Distributed execution\<close>

lemma collect_results_counts:
  "\<forall>n\<in>set ns. h n ''id'' \<noteq> None \<Longrightarrow>
   \<exists>rs. collect_results h operation data ns = Inr rs \<and>
        length rs = length ns \<and>
        count_status ''failed'' rs = count_raising h operation data ns \<and>
        count_status ''success'' rs + count_raising h operation data ns = length ns"
proof (induction ns)
  case Nil
  show ?case by (simp add: count_status_def count_raising_def)
next
  case (Cons n ns)
  then obtain rs where rs: "collect_results h operation data ns = Inr rs"
    "length rs = length ns"
    "count_status ''failed'' rs = count_raising h operation data ns"
    "count_status ''success'' rs + count_raising h operation data ns = length ns"
    by auto
  from Cons.prems obtain i where i: "h n ''id'' = Some i" by auto
  show ?case
  proof (cases "operation (h n) data")
    case (Inl msg)
    with rs i show ?thesis by (simp add: count_status_def count_raising_def)
  next
    case (Inr result)
    with rs i show ?thesis by (simp add: count_status_def count_raising_def)
  qed
qed

lemma completion_mset:
  "mset (map (\<lambda>i. xs ! i) (completion_order finished (length xs))) = mset xs"
proof -
  have "mset (map (\<lambda>i. xs ! i) (completion_order finished (length xs))) =
        image_mset (\<lambda>i. xs ! i) (mset [0..<length xs])"
    by (simp add: completion_order_def)
  also have "\<dots> = mset (map (\<lambda>i. xs ! i) [0..<length xs])" by simp
  also have "\<dots> = mset xs" by (simp add: map_nth)
  finally show ?thesis .
qed

lemma count_raising_mset:
  "mset xs = mset ys \<Longrightarrow> count_raising h operation data xs = count_raising h operation data ys"
  unfolding count_raising_def
  by (metis mset_filter size_mset)

text \<open>
  Claim C5, as the code has it. Over a registry of nodes that carry the fields of a
  registered node, with at least one healthy node and \<^verbatim>\<open>max_concurrent_nodes\<close> at least 1,
  the call returns one outcome for each of the \<open>K\<close> submitted nodes, the first
  \<^verbatim>\<open>max_concurrent_nodes\<close> healthy ones: as many marked \<^verbatim>\<open>failed\<close> as there are submitted
  nodes on which the operation raises, and the others marked \<^verbatim>\<open>success\<close>, whatever the
  order of completion. The call raises only when no node is healthy, or when
  \<^verbatim>\<open>max_concurrent_nodes\<close> is zero or negative.
\<close>

theorem dispatch_outcomes:
  assumes "\<forall>n\<in>set (nodes c). node_fields_ok (heap c n)"
  shows "(\<forall>e. perform_distributed_operation c now operation data mx finished = Inl e \<longrightarrow>
            (e = InsufficientNodes 1 \<and> filter (fresh_active c now) (nodes c) = []) \<or>
            (e = ValueError \<and> mx \<le> 0)) \<and>
         (filter (fresh_active c now) (nodes c) \<noteq> [] \<and> 1 \<le> mx \<longrightarrow>
            (\<exists>rs. perform_distributed_operation c now operation data mx finished = Inr rs \<and>
               length rs = min (nat mx) (length (filter (fresh_active c now) (nodes c))) \<and>
               count_status ''failed'' rs =
                 count_raising (heap c) operation data
                   (take (nat mx) (filter (fresh_active c now) (nodes c))) \<and>
               count_status ''success'' rs =
                 length rs - count_raising (heap c) operation data
                   (take (nat mx) (filter (fresh_active c now) (nodes c)))))"
proof -
  define hs where "hs = filter (fresh_active c now) (nodes c)"
  define sub where "sub = take (nat mx) hs"
  define dn where "dn = map (\<lambda>i. sub ! i) (completion_order finished (length sub))"
  define F where "F = count_raising (heap c) operation data sub"
  have hf: "healthy_filter c now (nodes c) = Inr hs"
    unfolding hs_def by (rule healthy_filter_fields_ok[OF assms])
  have ms: "mset dn = mset sub" unfolding dn_def by (rule completion_mset)
  then have "set dn = set sub" by (rule mset_eq_setD)
  also have "\<dots> \<subseteq> set (nodes c)" unfolding sub_def hs_def by (auto dest: in_set_takeD)
  finally have "\<forall>n\<in>set dn. heap c n ''id'' \<noteq> None"
    using assms by (auto simp: node_fields_ok_def)
  from collect_results_counts[where h = "heap c" and ns = dn, OF this, of operation data]
  obtain rs where
    coll: "collect_results (heap c) operation data dn = Inr rs"
    and len_rs: "length rs = length dn"
    and failed: "count_status ''failed'' rs = count_raising (heap c) operation data dn"
    and success: "count_status ''success'' rs + count_raising (heap c) operation data dn = length dn"
    by blast
  have cr: "count_raising (heap c) operation data dn = F"
    unfolding F_def by (rule count_raising_mset[OF ms])
  have "length dn = length sub" by (rule mset_eq_length[OF ms])
  also have "\<dots> = min (nat mx) (length hs)" unfolding sub_def by (simp add: min.commute)
  finally have len: "length rs = min (nat mx) (length hs)" using len_rs by simp
  have failed': "count_status ''failed'' rs = F" using failed cr by simp
  have success': "count_status ''success'' rs = length rs - F" using success cr len_rs by simp
  have run: "perform_distributed_operation c now operation data mx finished =
      (if hs = [] then Inl (InsufficientNodes 1)
       else if mx \<le> 0 then Inl ValueError else Inr rs)"
    using coll
    by (cases hs)
       (simp_all add: perform_distributed_operation_def get_healthy_nodes_def hf Let_def
          sub_def dn_def)
  have raises: "\<forall>e. perform_distributed_operation c now operation data mx finished = Inl e \<longrightarrow>
      (e = InsufficientNodes 1 \<and> hs = []) \<or> (e = ValueError \<and> mx \<le> 0)"
    unfolding run by auto
  have returns: "hs \<noteq> [] \<and> 1 \<le> mx \<longrightarrow>
      (\<exists>rs. perform_distributed_operation c now operation data mx finished = Inr rs \<and>
         length rs = min (nat mx) (length hs) \<and>
         count_status ''failed'' rs = F \<and> count_status ''success'' rs = length rs - F)"
    using len failed' success' unfolding run by auto
  from raises returns show ?thesis
    unfolding F_def sub_def hs_def by (rule conjI)
qed

lemma completion_order_reversed_two: "completion_order finish_reversed (Suc (Suc 0)) = [1, 0]"
  by (simp add: completion_order_def finish_reversed_def)

lemma dispatch_at_boundary: "perform_distributed_operation at_boundary 50 probe_port () 3 finish_reversed =
     Inr [Failed (VStr ''B'') ''refused'', Success (VStr ''A'') (VNum 8000)]"
  by (simp add: perform_distributed_operation_def at_boundary_def model_defs completion_order_reversed_two probe_port_def)

theorem dispatch_outcomes_witness:
  "perform_distributed_operation at_boundary 50 probe_port () 3 finish_reversed =
     Inr [Failed (VStr ''B'') ''refused'', Success (VStr ''A'') (VNum 8000)] \<and>
   count_raising (heap at_boundary) probe_port ()
     (take (nat 3) (filter (fresh_active at_boundary 50) (nodes at_boundary))) = 1 \<and>
   count_status ''failed'' [Failed (VStr ''B'') ''refused'', Success (VStr ''A'') (VNum 8000)] = 1 \<and>
   count_status ''success'' [Failed (VStr ''B'') ''refused'', Success (VStr ''A'') (VNum 8000)] = 1"
proof -
  have ok: "\<forall>n\<in>set (nodes at_boundary). node_fields_ok (heap at_boundary n)"
    by (simp add: at_boundary_def model_defs node_fields_ok_def)
  have hs: "filter (fresh_active at_boundary 50) (nodes at_boundary) = [0, 1]"
    by (simp add: at_boundary_def model_defs fresh_active_def)
  have f: "count_raising (heap at_boundary) probe_port () [0, 1] = 1"
    by (simp add: count_raising_def probe_port_def at_boundary_def model_defs)
  have e: "perform_distributed_operation at_boundary 50 probe_port () 3 finish_reversed =
     Inr [Failed (VStr ''B'') ''refused'', Success (VStr ''A'') (VNum 8000)]"
    by (rule dispatch_at_boundary)
  from dispatch_outcomes[OF ok, of 50 probe_port "()" 3 finish_reversed] hs f e
  show ?thesis by simp
qed

text \<open>
  Claim C5, as stated, fails for \<^verbatim>\<open>max_concurrent_nodes = 0\<close>: two nodes are healthy and
  the selection of nodes succeeds, yet the call raises, because the thread pool refuses a
  worker count of zero.
\<close>

theorem dispatch_rejects_zero_workers:
  "get_healthy_nodes at_boundary 50 1 = Inr [0, 1] \<and>
   perform_distributed_operation at_boundary 50 probe_port () 0 finish_reversed = Inl ValueError"
  by (simp add: perform_distributed_operation_def at_boundary_def model_defs)

end
